theory Spec2Isabelle
  imports Main
begin

section \<open>JavaScript values\<close>

text \<open>
  The functions of \<^verbatim>\<open>src/utils.ts\<close> receive values typed \<^verbatim>\<open>any\<close> or \<^verbatim>\<open>NestedStyle\<close> and
  inspect them with \<^verbatim>\<open>typeof\<close>, \<^verbatim>\<open>Array.isArray\<close>, strict equality and property lookup.
  A value is therefore modelled as a tagged union of the run-time shapes those tests can
  tell apart. Numbers are never inspected beyond \<^verbatim>\<open>typeof\<close>, so their carrier is the
  type parameter \<open>'n\<close>. A function value is opaque (an identifier). An object is the
  list of its enumerable properties in enumeration order, each name occurring once;
  the list holds its own properties. Property names are style and selector names, none
  of them an array index (which JavaScript would enumerate first). Strings are ASCII.
\<close>

datatype 'n jsval =
    JUndefined
  | JNull
  | JBool bool
  | JNum 'n
  | JStr string
  | JFun nat
  | JArr "'n jsval list"
  | JObj "(string \<times> 'n jsval) list"

type_synonym 'n obj = "(string \<times> 'n jsval) list"

text \<open>The \<^verbatim>\<open>typeof\<close> operator.\<close>

fun typeof :: "'n jsval \<Rightarrow> string" where
  "typeof JUndefined = ''undefined''"
| "typeof JNull = ''object''"
| "typeof (JBool b) = ''boolean''"
| "typeof (JNum n) = ''number''"
| "typeof (JStr s) = ''string''"
| "typeof (JFun f) = ''function''"
| "typeof (JArr xs) = ''object''"
| "typeof (JObj ps) = ''object''"

text \<open>\<^verbatim>\<open>Array.isArray\<close>.\<close>

fun isArray :: "'n jsval \<Rightarrow> bool" where
  "isArray (JArr xs) = True"
| "isArray v = False"

text \<open>Truthiness (the abstract operation ToBoolean). The module tests it only on values
  that \<^verbatim>\<open>typeof\<close> has already shown not to be numbers, so the number case (where zero
  and NaN are falsy) is never consulted and is left at \<open>True\<close>.\<close>

fun truthy :: "'n jsval \<Rightarrow> bool" where
  "truthy JUndefined = False"
| "truthy JNull = False"
| "truthy (JBool b) = b"
| "truthy (JStr s) = (s \<noteq> [])"
| "truthy v = True"

text \<open>Property read \<^verbatim>\<open>value.name\<close> on a truthy value: an object yields the property or
  \<^verbatim>\<open>undefined\<close>; primitives, functions and arrays carry no such own property.\<close>

fun get_member :: "'n jsval \<Rightarrow> string \<Rightarrow> 'n jsval" where
  "get_member (JObj ps) name = (case map_of ps name of Some v \<Rightarrow> v | None \<Rightarrow> JUndefined)"
| "get_member v name = JUndefined"

section \<open>The regular expression of the percentage test\<close>

text \<open>
  Line 106 tests a string against \<^verbatim>\<open>/^(\d+(\.\d+)?)(%)?$/\<close>. The expression is kept as
  a term; \<^verbatim>\<open>RegExp.test\<close> with both anchors and no flags accepts exactly the strings the
  whole expression matches, which is decided here by Brzozowski derivatives.
\<close>

datatype rexp =
    Nothing
  | Empty
  | Chr char
  | Digit
  | Seq rexp rexp
  | Alt rexp rexp
  | Star rexp

definition Opt :: "rexp \<Rightarrow> rexp" where
  "Opt r = Alt r Empty"

definition Plus :: "rexp \<Rightarrow> rexp" where
  "Plus r = Seq r (Star r)"

definition is_digit :: "char \<Rightarrow> bool" where
  "is_digit c = (c \<in> set ''0123456789'')"

fun nullable :: "rexp \<Rightarrow> bool" where
  "nullable Nothing = False"
| "nullable Empty = True"
| "nullable (Chr c) = False"
| "nullable Digit = False"
| "nullable (Seq r s) = (nullable r \<and> nullable s)"
| "nullable (Alt r s) = (nullable r \<or> nullable s)"
| "nullable (Star r) = True"

fun deriv :: "char \<Rightarrow> rexp \<Rightarrow> rexp" where
  "deriv a Nothing = Nothing"
| "deriv a Empty = Nothing"
| "deriv a (Chr c) = (if a = c then Empty else Nothing)"
| "deriv a Digit = (if is_digit a then Empty else Nothing)"
| "deriv a (Seq r s) =
     (if nullable r then Alt (Seq (deriv a r) s) (deriv a s) else Seq (deriv a r) s)"
| "deriv a (Alt r s) = Alt (deriv a r) (deriv a s)"
| "deriv a (Star r) = Seq (deriv a r) (Star r)"

fun matches :: "rexp \<Rightarrow> string \<Rightarrow> bool" where
  "matches r [] = nullable r"
| "matches r (a # as) = matches (deriv a r) as"

text \<open>\<^verbatim>\<open>(\d+(\.\d+)?)(%)?\<close>\<close>

definition percentage_re :: rexp where
  "percentage_re =
     Seq (Seq (Plus Digit) (Opt (Seq (Chr (CHR ''.'')) (Plus Digit)))) (Opt (Chr (CHR ''%'')))"

section \<open>The value classifier\<close>

text \<open>
  \<^verbatim>\<open>isDimensionValue\<close> (lines 102-110) is declared as a type predicate. The model returns
  the truth value of its expression, which is what both of its call sites (an
  \<^verbatim>\<open>if\<close> and \<^verbatim>\<open>Array.every\<close>) consume. The disjuncts are in the order of the source.
\<close>

definition isDimensionValue :: "'n jsval \<Rightarrow> bool" where
  "isDimensionValue v =
     (typeof v = ''number'' \<or>
      v = JStr ''auto'' \<or>
      (typeof v = ''string'' \<and> (case v of JStr s \<Rightarrow> matches percentage_re s | _ \<Rightarrow> False)) \<or>
      v = JNull \<or>
      (truthy v \<and> typeof (get_member v ''addListener'') = ''function''))"

section \<open>Errors\<close>

text \<open>
  Every failure of the module is a \<^verbatim>\<open>throw new Error(message)\<close>. An error value records
  which message template was used and the values interpolated into it:
  \<^item> \<open>InvalidShorthandLength k expected n\<close> for
    \<^verbatim>\<open>Invalid ${k} array length: Expected 1, 2, 3, or 4, got ${n}.\<close> (line 176) and
    \<^verbatim>\<open>Invalid gap array length: Expected 1 or 2, got ${n}.\<close> (line 203), where
    \<open>expected\<close> lists the lengths the message names;
  \<^item> \<open>InvalidShorthandValue k (TypeOf t)\<close> for
    \<^verbatim>\<open>Invalid value for ${k}: Expected ..., got ${t}.\<close> (lines 137, 180, 207);
  \<^item> \<open>InvalidShorthandValue ''inset'' (Json v)\<close> for
    \<^verbatim>\<open>Invalid value for inset: ${JSON.stringify(v)}\<close> (line 133);
  \<^item> \<open>TypeError\<close> for calling a handler that the handler table does not hold.
\<close>

datatype 'n descr = TypeOf string | Json "'n jsval"

datatype 'n error =
    InvalidShorthandLength string "nat list" nat
  | InvalidShorthandValue string "'n descr"
  | TypeError

section \<open>Shorthand expanders\<close>

text \<open>The elements of an array, and the array destructuring
  \<^verbatim>\<open>const [a, b, ...] = value\<close>, which binds \<^verbatim>\<open>undefined\<close> past the end.\<close>

fun elements :: "'n jsval \<Rightarrow> 'n jsval list" where
  "elements (JArr xs) = xs"
| "elements v = []"

definition element :: "'n jsval list \<Rightarrow> nat \<Rightarrow> 'n jsval" where
  "element xs i = (if i < length xs then xs ! i else JUndefined)"

text \<open>\<^verbatim>\<open>handleShorthandInset\<close>, lines 115-138.\<close>

definition handleShorthandInset :: "string \<Rightarrow> 'n jsval \<Rightarrow> 'n error + 'n obj" where
  "handleShorthandInset key v =
     (if isDimensionValue v then
        Inr [(''top'', v), (''right'', v), (''bottom'', v), (''left'', v)]
      else if isArray v \<and> list_all isDimensionValue (elements v) then
        (let xs = elements v;
             top = element xs 0; right = element xs 1;
             bottom = element xs 2; left = element xs 3
         in if length xs = 1 then
              Inr [(''top'', top), (''right'', top), (''bottom'', top), (''left'', top)]
            else if length xs = 2 then
              Inr [(''top'', top), (''right'', right), (''bottom'', top), (''left'', right)]
            else if length xs = 3 then
              Inr [(''top'', top), (''right'', right), (''bottom'', bottom), (''left'', right)]
            else if length xs = 4 then
              Inr [(''top'', top), (''right'', right), (''bottom'', bottom), (''left'', left)]
            else Inl (InvalidShorthandValue ''inset'' (Json v)))
      else Inl (InvalidShorthandValue key (TypeOf (typeof v))))"

text \<open>\<^verbatim>\<open>handleShorthandSpacing\<close>, lines 143-181. The computed property names
  \<^verbatim>\<open>`${key}Vertical`\<close> and the like are concatenations.\<close>

definition handleShorthandSpacing :: "string \<Rightarrow> 'n jsval \<Rightarrow> 'n error + 'n obj" where
  "handleShorthandSpacing key v =
     (if isDimensionValue v then
        Inr [(key @ ''Vertical'', v), (key @ ''Horizontal'', v)]
      else if isArray v \<and> list_all isDimensionValue (elements v) then
        (let xs = elements v;
             top = element xs 0; right = element xs 1;
             bottom = element xs 2; left = element xs 3
         in if length xs = 1 then
              Inr [(key, top)]
            else if length xs = 2 then
              Inr [(key @ ''Vertical'', top), (key @ ''Horizontal'', right)]
            else if length xs = 3 then
              Inr [(key @ ''Top'', top), (key @ ''Horizontal'', right), (key @ ''Bottom'', bottom)]
            else if length xs = 4 then
              Inr [(key @ ''Top'', top), (key @ ''Right'', right),
                   (key @ ''Bottom'', bottom), (key @ ''Left'', left)]
            else Inl (InvalidShorthandLength key [1, 2, 3, 4] (length xs)))
      else Inl (InvalidShorthandValue key (TypeOf (typeof v))))"

text \<open>\<^verbatim>\<open>handleShorthandGap\<close>, lines 186-208.\<close>

definition handleShorthandGap :: "string \<Rightarrow> 'n jsval \<Rightarrow> 'n error + 'n obj" where
  "handleShorthandGap key v =
     (if typeof v = ''number'' then
        Inr [(''gap'', v)]
      else if isArray v \<and> list_all (\<lambda>i. typeof i = ''number'') (elements v) then
        (let xs = elements v; row = element xs 0; column = element xs 1
         in if length xs = 1 then
              Inr [(''gap'', row)]
            else if length xs = 2 then
              Inr [(''rowGap'', row), (''columnGap'', column)]
            else Inl (InvalidShorthandLength ''gap'' [1, 2] (length xs)))
      else Inl (InvalidShorthandValue key (TypeOf (typeof v))))"

section \<open>Strings: \<^verbatim>\<open>split\<close>, \<^verbatim>\<open>trim\<close> and \<^verbatim>\<open>capitalize\<close>\<close>

text \<open>\<^verbatim>\<open>key.split(',')\<close>: the segments between the commas; a string without a comma
  (the empty string too) is its only segment.\<close>

fun split_comma :: "string \<Rightarrow> string list" where
  "split_comma [] = [[]]"
| "split_comma (c # cs) =
     (if c = CHR '','' then [] # split_comma cs
      else (c # hd (split_comma cs)) # tl (split_comma cs))"

text \<open>\<^verbatim>\<open>String.prototype.trim\<close> removes white space and line terminators from both ends;
  within ASCII these are tab, line feed, vertical tab, form feed, carriage return and
  space.\<close>

definition is_space :: "char \<Rightarrow> bool" where
  "is_space c = (c \<in> set [CHR 0x09, CHR 0x0A, CHR 0x0B, CHR 0x0C, CHR 0x0D, CHR 0x20])"

definition trim :: "string \<Rightarrow> string" where
  "trim s = rev (dropWhile is_space (rev (dropWhile is_space s)))"

text \<open>\<^verbatim>\<open>toUpperCase\<close> on one ASCII character.\<close>

definition toUpperCase :: "char \<Rightarrow> char" where
  "toUpperCase c =
     (case map_of (zip ''abcdefghijklmnopqrstuvwxyz'' ''ABCDEFGHIJKLMNOPQRSTUVWXYZ'') c of
        Some u \<Rightarrow> u
      | None \<Rightarrow> c)"

text \<open>Line 23: \<^verbatim>\<open>str.charAt(0).toUpperCase() + str.slice(1)\<close>.\<close>

definition capitalize :: "string \<Rightarrow> string" where
  "capitalize str = map toUpperCase (take 1 str) @ drop 1 str"

section \<open>Objects and style maps\<close>

text \<open>
  A style map (\<^verbatim>\<open>NativeStyle\<close>, and the \<^verbatim>\<open>map\<close> of shared styles) is an object whose
  own properties are buckets, themselves objects. The declared types make every bucket
  an object, hence truthy. Buckets are held by value: each selector owns its bucket, as
  is the case for every bucket these functions create (a fresh \<^verbatim>\<open>{}\<close>).

  Style maps and buckets are ordinary objects: a property they do not own is looked up
  in \<^verbatim>\<open>Object.prototype\<close>, taken as the language defines it. Its properties with a
  string name are the following; each is a function, except \<^verbatim>\<open>__proto__\<close>, an
  accessor whose getter yields \<^verbatim>\<open>Object.prototype\<close> itself. All of them are truthy.
\<close>

type_synonym 'n styles = "(string \<times> 'n obj) list"

definition object_prototype_names :: "string list" where
  "object_prototype_names =
     [''constructor'', ''__defineGetter__'', ''__defineSetter__'', ''hasOwnProperty'',
      ''__lookupGetter__'', ''__lookupSetter__'', ''isPrototypeOf'', ''propertyIsEnumerable'',
      ''toString'', ''valueOf'', ''__proto__'', ''toLocaleString'']"

text \<open>The read \<^verbatim>\<open>m[k]\<close> on a style map: the bucket the map owns under \<open>k\<close>, or an
  object inherited from \<^verbatim>\<open>Object.prototype\<close>, or \<^verbatim>\<open>undefined\<close>.\<close>

datatype 'a found = Own 'a | Inherited | Absent

definition lookup :: "(string \<times> 'a) list \<Rightarrow> string \<Rightarrow> 'a found" where
  "lookup m k =
     (case map_of m k of
        Some b \<Rightarrow> Own b
      | None \<Rightarrow> if k \<in> set object_prototype_names then Inherited else Absent)"

text \<open>
  The object that \<^verbatim>\<open>m[k]\<close> denotes after \<^verbatim>\<open>if (!m[k]) m[k] = {}\<close> (lines 40, 67 and
  94): the bucket the map owns, or a new empty one where the read gave \<^verbatim>\<open>undefined\<close>.
  An inherited object is truthy: no bucket is made, and \<^verbatim>\<open>m[k]\<close> is that object, which
  is no part of the map (\<open>None\<close>).
\<close>

definition ensure_bucket :: "'n styles \<Rightarrow> string \<Rightarrow> 'n obj option" where
  "ensure_bucket m k =
     (case lookup m k of Own b \<Rightarrow> Some b | Absent \<Rightarrow> Some [] | Inherited \<Rightarrow> None)"

text \<open>
  How a call ends. It returns (\<open>Completed\<close>), or an error is thrown (\<open>Threw\<close>), or it
  writes through the name \<open>k\<close> onto something that is no part of the style maps
  (\<open>Outside k\<close>): onto the object inherited under \<open>k\<close>, or, for \<^verbatim>\<open>__proto__\<close>, into the
  prototype link of a bucket. Such a write changes objects shared by the whole program;
  the model does not follow the run beyond it, and gives the style map as it stands at
  that point.
\<close>

datatype 'n outcome = Completed | Threw "'n error" | Outside string

text \<open>Storing a property in a list of own properties: an existing property keeps its
  place, a new one is added last.\<close>

fun set_prop :: "string \<Rightarrow> 'a \<Rightarrow> (string \<times> 'a) list \<Rightarrow> (string \<times> 'a) list" where
  "set_prop k v [] = [(k, v)]"
| "set_prop k v (p # ps) = (if fst p = k then (k, v) # ps else p # set_prop k v ps)"

text \<open>The values that are neither objects nor \<^verbatim>\<open>null\<close>.\<close>

fun is_primitive :: "'n jsval \<Rightarrow> bool" where
  "is_primitive JUndefined = True"
| "is_primitive (JBool b) = True"
| "is_primitive (JNum n) = True"
| "is_primitive (JStr s) = True"
| "is_primitive v = False"

text \<open>
  The assignment \<^verbatim>\<open>b[p] = v\<close> on a bucket. A property the bucket owns is updated; one
  it does not own is added, unless the name is \<^verbatim>\<open>__proto__\<close>: then the inherited setter
  runs, which ignores a primitive value and otherwise replaces the prototype of the
  bucket (\<open>None\<close>).
\<close>

definition assign :: "string \<Rightarrow> 'n jsval \<Rightarrow> 'n obj \<Rightarrow> 'n obj option" where
  "assign p v b =
     (if p = ''__proto__'' \<and> map_of b p = None then (if is_primitive v then Some b else None)
      else Some (set_prop p v b))"

text \<open>\<^verbatim>\<open>Object.assign(target, source)\<close> on a bucket assigns the properties of the source
  in order.\<close>

fun object_assign :: "'n obj \<Rightarrow> 'n obj \<Rightarrow> 'n obj \<times> 'n outcome" where
  "object_assign target [] = (target, Completed)"
| "object_assign target ((k, v) # ps) =
     (case assign k v target of
        None \<Rightarrow> (target, Outside ''__proto__'')
      | Some target' \<Rightarrow> object_assign target' ps)"

section \<open>Shared styles\<close>

text \<open>Lines 13 and 18.\<close>

definition ignoredKeys :: "string list" where
  "ignoredKeys = [''shadowOffset'']"

definition specialShorthandKeys :: "string list" where
  "specialShorthandKeys = [''inset'', ''margin'', ''padding'', ''gap'']"

text \<open>Lines 213-218.\<close>

definition shorthandHandlers :: "(string \<times> (string \<Rightarrow> 'n jsval \<Rightarrow> 'n error + 'n obj)) list" where
  "shorthandHandlers =
     [(''inset'', handleShorthandInset),
      (''margin'', handleShorthandSpacing),
      (''padding'', handleShorthandSpacing),
      (''gap'', handleShorthandGap)]"

text \<open>Line 35: \<^verbatim>\<open>key.split(',').map((s) => s.trim())\<close>.\<close>

definition selectors :: "string \<Rightarrow> string list" where
  "selectors key = map trim (split_comma key)"

text \<open>Line 38; a string is truthy when it is not empty.\<close>

definition scopedKey :: "string \<Rightarrow> string \<Rightarrow> string" where
  "scopedKey parentKey selector =
     (if parentKey \<noteq> [] then parentKey @ capitalize selector else selector)"

text \<open>
  Lines 42-49: the loop over the properties of \<^verbatim>\<open>value\<close>, run on the bucket
  \<^verbatim>\<open>map[scopedKey]\<close>. A handler that throws ends the loop; the bucket is mutated in
  place, so the writes made before the throw stay. The result is the bucket and how the
  loop ended.
\<close>

fun write_props :: "'n obj \<Rightarrow> 'n obj \<Rightarrow> 'n obj \<times> 'n outcome" where
  "write_props [] b = (b, Completed)"
| "write_props ((prop, pv) # rest) b =
     (if prop \<in> set specialShorthandKeys then
        (case map_of shorthandHandlers prop of
           None \<Rightarrow> (b, Threw TypeError)
         | Some handler \<Rightarrow>
             (case handler prop pv of
                Inl e \<Rightarrow> (b, Threw e)
              | Inr expanded \<Rightarrow>
                  (case object_assign b expanded of
                     (b', Completed) \<Rightarrow> write_props rest b'
                   | (b', ended) \<Rightarrow> (b', ended))))
      else
        (case assign prop pv b of
           None \<Rightarrow> (b, Outside ''__proto__'')
         | Some b' \<Rightarrow> write_props rest b'))"

text \<open>
  The same loop where \<^verbatim>\<open>map[scopedKey]\<close> is the object inherited under \<open>k\<close>: the first
  property written lands on that object. A handler that throws does so before anything
  is written.
\<close>

fun write_inherited :: "string \<Rightarrow> 'n obj \<Rightarrow> 'n outcome" where
  "write_inherited k [] = Completed"
| "write_inherited k ((prop, pv) # rest) =
     (if prop \<in> set specialShorthandKeys then
        (case map_of shorthandHandlers prop of
           None \<Rightarrow> Threw TypeError
         | Some handler \<Rightarrow>
             (case handler prop pv of
                Inl e \<Rightarrow> Threw e
              | Inr expanded \<Rightarrow> if expanded = [] then write_inherited k rest else Outside k))
      else Outside k)"

text \<open>Lines 37-50: \<^verbatim>\<open>selectors.forEach\<close>; a call that does not run to its end leaves
  the loop with the map as it stands.\<close>

fun forEach_selector ::
  "string \<Rightarrow> 'n obj \<Rightarrow> string list \<Rightarrow> 'n styles \<Rightarrow> 'n styles \<times> 'n outcome" where
  "forEach_selector parentKey value [] m = (m, Completed)"
| "forEach_selector parentKey value (selector # rest) m =
     (let sk = scopedKey parentKey selector
      in case ensure_bucket m sk of
           None \<Rightarrow>
             (case write_inherited sk value of
                Completed \<Rightarrow> forEach_selector parentKey value rest m
              | ended \<Rightarrow> (m, ended))
         | Some b0 \<Rightarrow>
             (let (b, ended) = write_props value b0;
                  m' = set_prop sk b m
              in case ended of
                   Completed \<Rightarrow> forEach_selector parentKey value rest m'
                 | _ \<Rightarrow> (m', ended)))"

text \<open>\<^verbatim>\<open>handleSharedStyles\<close>, lines 28-51: the map after the call, and how the call
  ended.\<close>

definition handleSharedStyles ::
  "string \<Rightarrow> string \<Rightarrow> 'n obj \<Rightarrow> 'n styles \<Rightarrow> 'n styles \<times> 'n outcome" where
  "handleSharedStyles key parentKey value m =
     forEach_selector parentKey value (selectors key) m"



text \<open>
  Lines 93-96: the loop of \<^verbatim>\<open>applySharedStyles\<close>, one step per selector of the shared
  map, in its enumeration order. \<^verbatim>\<open>Object.assign\<close> onto an inherited object writes the
  first property of the source there; with an empty source it writes nothing.
\<close>

fun forIn_selectors :: "'n styles \<Rightarrow> 'n styles \<Rightarrow> 'n styles \<times> 'n outcome" where
  "forIn_selectors nativeStyles [] = (nativeStyles, Completed)"
| "forIn_selectors nativeStyles ((selector, props) # rest) =
     (case ensure_bucket nativeStyles selector of
        None \<Rightarrow>
          (if props = [] then forIn_selectors nativeStyles rest
           else (nativeStyles, Outside selector))
      | Some b0 \<Rightarrow>
          (let (b, ended) = object_assign b0 props;
               nativeStyles' = set_prop selector b nativeStyles
           in case ended of
                Completed \<Rightarrow> forIn_selectors nativeStyles' rest
              | _ \<Rightarrow> (nativeStyles', ended)))"

text \<open>\<^verbatim>\<open>applySharedStyles\<close>, lines 87-97: the map after the call, and how the call
  ended.\<close>

definition applySharedStyles :: "'n styles \<Rightarrow> 'n styles \<Rightarrow> 'n styles" where
  "applySharedStyles nativeStyles sharedStylesMap =
     fst (forIn_selectors nativeStyles sharedStylesMap)"

definition applySharedStyles_ended :: "'n styles \<Rightarrow> 'n styles \<Rightarrow> 'n outcome" where
  "applySharedStyles_ended nativeStyles sharedStylesMap =
     snd (forIn_selectors nativeStyles sharedStylesMap)"

section \<open>The specification's notions\<close>

text \<open>The definitions of this section follow the words of the specification; the
  theorems below compare them with the program.\<close>

text \<open>One or more digits.\<close>

definition digits :: "string \<Rightarrow> bool" where
  "digits s = (s \<noteq> [] \<and> list_all is_digit s)"

text \<open>A string of one or more digits, an optional decimal fraction (a point and one or
  more digits) and an optional trailing percent sign.\<close>

definition spec_percentage_string :: "string \<Rightarrow> bool" where
  "spec_percentage_string s =
     (\<exists>whole frac pct. s = whole @ frac @ pct \<and> digits whole \<and>
        (frac = [] \<or> (\<exists>fs. frac = CHR ''.'' # fs \<and> digits fs)) \<and>
        (pct = [] \<or> pct = ''%''))"

text \<open>A Dimension Value: a number, the exact string "auto", a percentage string, null, or
  an object exposing a callable \<^verbatim>\<open>addListener\<close>.\<close>

definition spec_isDimensionValue :: "'n jsval \<Rightarrow> bool" where
  "spec_isDimensionValue v =
     ((\<exists>n. v = JNum n) \<or>
      v = JStr ''auto'' \<or>
      (\<exists>s. v = JStr s \<and> spec_percentage_string s) \<or>
      v = JNull \<or>
      (\<exists>ps f. v = JObj ps \<and> map_of ps ''addListener'' = Some (JFun f)))"

text \<open>A call that fails with an error of the kind InvalidShorthandLength.\<close>

fun fails_with_length_error :: "'n error + 'a \<Rightarrow> bool" where
  "fails_with_length_error (Inl (InvalidShorthandLength k expected n)) = True"
| "fails_with_length_error r = False"

text \<open>Joining segments with commas, the inverse of splitting on them.\<close>

fun join_comma :: "string list \<Rightarrow> string" where
  "join_comma [] = []"
| "join_comma [s] = s"
| "join_comma (s # t # r) = s @ CHR '','' # join_comma (t # r)"

text \<open>A well-formed object names each property once; in a well-formed style map the
  buckets are well formed too.\<close>

definition wf_obj :: "(string \<times> 'a) list \<Rightarrow> bool" where
  "wf_obj ps = distinct (map fst ps)"

definition wf_styles :: "'n styles \<Rightarrow> bool" where
  "wf_styles m = (wf_obj m \<and> list_all (\<lambda>(k, b). wf_obj b) m)"

text \<open>The content of a style map, insertion order put aside: the selectors it holds and,
  for each, the value of every property.\<close>

definition view :: "'n styles \<Rightarrow> string \<Rightarrow> (string \<rightharpoonup> 'n jsval) option" where
  "view m selector = map_option map_of (map_of m selector)"

text \<open>Merging a shared map into a flat one: every selector of the shared map gets a
  bucket, and its properties overwrite those already there.\<close>

definition spec_merge ::
  "(string \<Rightarrow> (string \<rightharpoonup> 'v) option) \<Rightarrow> (string \<Rightarrow> (string \<rightharpoonup> 'v) option) \<Rightarrow>
   string \<Rightarrow> (string \<rightharpoonup> 'v) option" where
  "spec_merge flat shared selector =
     (case shared selector of
        None \<Rightarrow> flat selector
      | Some props \<Rightarrow>
          Some ((case flat selector of None \<Rightarrow> Map.empty | Some old \<Rightarrow> old) ++ props))"

text \<open>Two shared maps with non-overlapping property sets: no selector has a property
  name in both.\<close>

definition disjoint_props :: "'n styles \<Rightarrow> 'n styles \<Rightarrow> bool" where
  "disjoint_props s1 s2 =
     (\<forall>(k1, b1) \<in> set s1. \<forall>(k2, b2) \<in> set s2.
        k1 = k2 \<longrightarrow> fst ` set b1 \<inter> fst ` set b2 = {})"

text \<open>The bucket a style map owns under a selector, empty when it owns none.\<close>

definition own_bucket :: "'n styles \<Rightarrow> string \<Rightarrow> 'n obj" where
  "own_bucket m k = (case map_of m k of None \<Rightarrow> [] | Some b \<Rightarrow> b)"

text \<open>Names that \<^verbatim>\<open>Object.prototype\<close> does not define, and objects none of whose
  properties is named \<^verbatim>\<open>__proto__\<close>.\<close>

definition plain_name :: "string \<Rightarrow> bool" where
  "plain_name k = (k \<notin> set object_prototype_names)"

definition plain_obj :: "(string \<times> 'a) list \<Rightarrow> bool" where
  "plain_obj ps = (''__proto__'' \<notin> set (map fst ps))"

definition plain_styles :: "'n styles \<Rightarrow> bool" where
  "plain_styles m = list_all (\<lambda>(k, b). plain_name k \<and> plain_obj b) m"

section \<open>The value classifier meets its specification\<close>

lemma matches_Nothing [simp]: "matches Nothing w = False"
  by (induction w) simp_all

lemma matches_Empty [simp]: "matches Empty w = (w = [])"
  by (cases w) simp_all

lemma matches_Chr [simp]: "matches (Chr c) w = (w = [c])"
  by (cases w) auto

lemma matches_Digit [simp]: "matches Digit w = (\<exists>c. w = [c] \<and> is_digit c)"
  by (cases w) auto

lemma matches_Alt [simp]: "matches (Alt r s) w = (matches r w \<or> matches s w)"
  by (induction w arbitrary: r s) simp_all

lemma matches_Seq: "matches (Seq r s) w = (\<exists>u v. w = u @ v \<and> matches r u \<and> matches s v)"
proof (induction w arbitrary: r s)
  case Nil
  then show ?case by simp
next
  case (Cons a w)
  have split: "(\<exists>u v. a # w = u @ v \<and> matches r u \<and> matches s v) =
      ((nullable r \<and> matches s (a # w)) \<or>
       (\<exists>u v. w = u @ v \<and> matches (deriv a r) u \<and> matches s v))"
    (is "?L = ?R")
  proof
    assume ?L
    then obtain u v where uv: "a # w = u @ v" "matches r u" "matches s v" by blast
    show ?R
    proof (cases u)
      case Nil
      with uv show ?thesis by simp
    next
      case (Cons b u')
      with uv have "w = u' @ v" "matches (deriv a r) u'" by simp_all
      with uv(3) show ?thesis by blast
    qed
  next
    assume ?R
    then show ?L
    proof
      assume "nullable r \<and> matches s (a # w)"
      then have "a # w = [] @ (a # w) \<and> matches r [] \<and> matches s (a # w)" by simp
      then show ?L by blast
    next
      assume "\<exists>u v. w = u @ v \<and> matches (deriv a r) u \<and> matches s v"
      then obtain u v where "w = u @ v" "matches (deriv a r) u" "matches s v" by blast
      then have "a # w = (a # u) @ v \<and> matches r (a # u) \<and> matches s v" by simp
      then show ?L by blast
    qed
  qed
  show ?case unfolding split using Cons.IH by (simp split: if_splits) blast
qed

lemma matches_Star_Digit: "matches (Star Digit) w = list_all is_digit w"
proof (induction w)
  case Nil
  then show ?case by simp
next
  case (Cons a w)
  have "matches (Star Digit) (a # w) = matches (Seq (deriv a Digit) (Star Digit)) w" by simp
  also have "\<dots> = (is_digit a \<and> matches (Star Digit) w)"
    by (simp add: matches_Seq)
  finally show ?case using Cons.IH by simp
qed

lemma matches_Plus_Digit: "matches (Plus Digit) w = digits w"
  unfolding Plus_def digits_def
  by (cases w) (auto simp add: matches_Seq matches_Star_Digit Cons_eq_append_conv)

lemma matches_fraction:
  "matches (Opt (Seq (Chr (CHR ''.'')) (Plus Digit))) w =
     (w = [] \<or> (\<exists>fs. w = CHR ''.'' # fs \<and> digits fs))"
  by (auto simp add: Opt_def matches_Seq matches_Plus_Digit)

lemma matches_percent_sign: "matches (Opt (Chr (CHR ''%''))) w = (w = [] \<or> w = ''%'')"
  by (auto simp add: Opt_def)

lemma matches_percentage_re: "matches percentage_re s = spec_percentage_string s"
proof
  assume "matches percentage_re s"
  then obtain u pct where s: "s = u @ pct"
    and u: "matches (Seq (Plus Digit) (Opt (Seq (Chr (CHR ''.'')) (Plus Digit)))) u"
    and pct: "matches (Opt (Chr (CHR ''%''))) pct"
    unfolding percentage_re_def matches_Seq [of "Seq _ _"] by blast
  from u obtain whole frac where u': "u = whole @ frac" and w: "matches (Plus Digit) whole"
    and f: "matches (Opt (Seq (Chr (CHR ''.'')) (Plus Digit))) frac"
    unfolding matches_Seq [of "Plus Digit"] by blast
  have "s = whole @ frac @ pct" using s u' by simp
  moreover have "digits whole" using w by (simp add: matches_Plus_Digit)
  moreover have "frac = [] \<or> (\<exists>fs. frac = CHR ''.'' # fs \<and> digits fs)"
    using f by (simp add: matches_fraction)
  moreover have "pct = [] \<or> pct = ''%''" using pct by (simp add: matches_percent_sign)
  ultimately show "spec_percentage_string s"
    unfolding spec_percentage_string_def by blast
next
  assume "spec_percentage_string s"
  then obtain whole frac pct where s: "s = whole @ frac @ pct" and w: "digits whole"
    and f: "frac = [] \<or> (\<exists>fs. frac = CHR ''.'' # fs \<and> digits fs)"
    and p: "pct = [] \<or> pct = ''%''"
    unfolding spec_percentage_string_def by blast
  have 1: "matches (Plus Digit) whole" using w by (simp add: matches_Plus_Digit)
  have 2: "matches (Opt (Seq (Chr (CHR ''.'')) (Plus Digit))) frac"
    using f by (simp add: matches_fraction)
  have 3: "matches (Opt (Chr (CHR ''%''))) pct" using p by (simp add: matches_percent_sign)
  have "matches (Seq (Plus Digit) (Opt (Seq (Chr (CHR ''.'')) (Plus Digit)))) (whole @ frac)"
    unfolding matches_Seq [of "Plus Digit"] using 1 2 by blast
  then have "matches percentage_re ((whole @ frac) @ pct)"
    unfolding percentage_re_def matches_Seq [of "Seq _ _"] using 3 by blast
  then show "matches percentage_re s" using s by simp
qed

lemma typeof_number: "(typeof v = ''number'') = (\<exists>n. v = JNum n)"
  by (cases v) simp_all

lemma typeof_function: "(typeof v = ''function'') = (\<exists>f. v = JFun f)"
  by (cases v) simp_all

lemma typeof_string: "(typeof v = ''string'') = (\<exists>s. v = JStr s)"
  by (cases v) simp_all

lemmas eval_dimension =
  isDimensionValue_def percentage_re_def Opt_def Plus_def is_digit_def

text \<open>
  C4. For every input \<open>v\<close>, \<^verbatim>\<open>isDimensionValue(v)\<close> is true if and only if \<open>v\<close> is a
  number, or the exact string "auto", or a string of one or more digits with an optional
  decimal fraction and an optional trailing percent sign, or null, or an object exposing
  a callable \<^verbatim>\<open>addListener\<close>; for every other input it is false. The function is total
  and pure, so it neither throws nor has an effect.
\<close>

theorem isDimensionValue_iff_spec: "isDimensionValue v = spec_isDimensionValue v"
  by (cases v)
    (auto simp add: isDimensionValue_def spec_isDimensionValue_def matches_percentage_re
      typeof_function split: option.splits)

theorem isDimensionValue_iff_spec_witness:
  "isDimensionValue (JStr ''10.5%'' :: int jsval) \<and>
   spec_isDimensionValue (JStr ''10.5%'' :: int jsval) \<and>
   \<not> spec_isDimensionValue (JStr ''10.%'' :: int jsval) \<and>
   \<not> spec_isDimensionValue (JBool True :: int jsval) \<and>
   spec_isDimensionValue (JObj [(''addListener'', JFun 0)] :: int jsval)"
  using isDimensionValue_iff_spec [of "JStr ''10.5%'' :: int jsval"]
    isDimensionValue_iff_spec [of "JStr ''10.%'' :: int jsval"]
    isDimensionValue_iff_spec [of "JBool True :: int jsval"]
    isDimensionValue_iff_spec [of "JObj [(''addListener'', JFun 0)] :: int jsval"]
  by (simp add: eval_dimension)

section \<open>The shorthand expanders\<close>

lemma isDimensionValue_JArr: "\<not> isDimensionValue (JArr xs)"
  by (simp add: isDimensionValue_def)

text \<open>
  C1. For every scalar Dimension Value \<open>v\<close>, \<^verbatim>\<open>handleShorthandInset\<close> returns
  \<^verbatim>\<open>{top: v, right: v, bottom: v, left: v}\<close>; for a sequence of Dimension Values of length
  1 all four sides are its element; of length 2, top and bottom are the first and right
  and left the second; of length 3, top is the first, right and left the second, bottom
  the third; of length 4, top, right, bottom and left are its elements in order.
\<close>

theorem handleShorthandInset_expands:
  assumes "isDimensionValue v"
    and "isDimensionValue a" and "isDimensionValue b"
    and "isDimensionValue c" and "isDimensionValue d"
  shows "handleShorthandInset key v =
           Inr [(''top'', v), (''right'', v), (''bottom'', v), (''left'', v)] \<and>
         handleShorthandInset key (JArr [a]) =
           Inr [(''top'', a), (''right'', a), (''bottom'', a), (''left'', a)] \<and>
         handleShorthandInset key (JArr [a, b]) =
           Inr [(''top'', a), (''right'', b), (''bottom'', a), (''left'', b)] \<and>
         handleShorthandInset key (JArr [a, b, c]) =
           Inr [(''top'', a), (''right'', b), (''bottom'', c), (''left'', b)] \<and>
         handleShorthandInset key (JArr [a, b, c, d]) =
           Inr [(''top'', a), (''right'', b), (''bottom'', c), (''left'', d)]"
  using assms by (simp add: handleShorthandInset_def element_def isDimensionValue_JArr)

theorem handleShorthandInset_expands_witness:
  "isDimensionValue (JNum (5::int)) \<and> isDimensionValue (JStr ''10%'' :: int jsval) \<and>
   isDimensionValue (JStr ''auto'' :: int jsval) \<and> isDimensionValue (JNull :: int jsval) \<and>
   isDimensionValue (JObj [(''addListener'', JFun 0)] :: int jsval) \<and>
   handleShorthandInset ''inset'' (JNum (5::int)) =
     Inr [(''top'', JNum 5), (''right'', JNum 5), (''bottom'', JNum 5), (''left'', JNum 5)] \<and>
   handleShorthandInset ''inset'' (JArr [JStr ''10%'', JStr ''auto'', JNull :: int jsval]) =
     Inr [(''top'', JStr ''10%''), (''right'', JStr ''auto''), (''bottom'', JNull),
          (''left'', JStr ''auto'')] \<and>
   handleShorthandInset ''inset''
       (JArr [JStr ''10%'', JStr ''auto'', JNull, JObj [(''addListener'', JFun 0)] :: int jsval]) =
     Inr [(''top'', JStr ''10%''), (''right'', JStr ''auto''), (''bottom'', JNull),
          (''left'', JObj [(''addListener'', JFun 0)])]"
proof -
  have h: "isDimensionValue (JNum (5::int))" "isDimensionValue (JStr ''10%'' :: int jsval)"
    "isDimensionValue (JStr ''auto'' :: int jsval)" "isDimensionValue (JNull :: int jsval)"
    "isDimensionValue (JObj [(''addListener'', JFun 0)] :: int jsval)"
    by (simp_all add: eval_dimension)
  from h handleShorthandInset_expands [OF h, of "''inset''"]
  show ?thesis by simp
qed

text \<open>
  C6, as the code has it. A sequence of Dimension Values whose length is 0 or at least 5
  makes \<^verbatim>\<open>handleShorthandInset\<close> fail, and no property map is produced; the error is the
  one of line 133, \<^verbatim>\<open>Invalid value for inset: ${JSON.stringify(value)}\<close>: it names the
  literal "inset" and carries the received sequence, not a set of expected lengths nor
  the actual length.
\<close>

theorem handleShorthandInset_bad_length:
  assumes "list_all isDimensionValue xs" and "length xs = 0 \<or> 5 \<le> length xs"
  shows "handleShorthandInset key (JArr xs) =
           Inl (InvalidShorthandValue ''inset'' (Json (JArr xs)))"
  using assms by (auto simp add: handleShorthandInset_def Let_def isDimensionValue_JArr)

theorem handleShorthandInset_bad_length_witness:
  "list_all isDimensionValue [JNum 1, JNum 2, JNum 3, JNum 4, JNum (5::int)] \<and>
   5 \<le> length [JNum 1, JNum 2, JNum 3, JNum 4, JNum (5::int)] \<and>
   handleShorthandInset ''inset'' (JArr [JNum 1, JNum 2, JNum 3, JNum 4, JNum (5::int)]) =
     Inl (InvalidShorthandValue ''inset''
            (Json (JArr [JNum 1, JNum 2, JNum 3, JNum 4, JNum 5])))"
proof -
  have h: "list_all isDimensionValue [JNum 1, JNum 2, JNum 3, JNum 4, JNum (5::int)]"
    by (simp add: isDimensionValue_def)
  have l: "length [JNum 1, JNum 2, JNum 3, JNum 4, JNum (5::int)] = 0 \<or>
      5 \<le> length [JNum 1, JNum 2, JNum 3, JNum 4, JNum (5::int)]" by simp
  from h handleShorthandInset_bad_length [OF h l, of "''inset''"] show ?thesis by simp
qed

text \<open>The claim C6 as the specification states it (an error of the kind
  InvalidShorthandLength) fails on the empty sequence and on a sequence of five
  numbers.\<close>

theorem handleShorthandInset_length_error_counterexample:
  "\<not> fails_with_length_error (handleShorthandInset ''inset'' (JArr [] :: int jsval)) \<and>
   \<not> fails_with_length_error
       (handleShorthandInset ''inset'' (JArr [JNum 1, JNum 2, JNum 3, JNum 4, JNum (5::int)]))"
  by (simp add: handleShorthandInset_def isDimensionValue_def)

text \<open>
  C2. \<^verbatim>\<open>handleShorthandSpacing\<close> maps a scalar Dimension Value \<open>v\<close> to
  \<^verbatim>\<open>{keyVertical: v, keyHorizontal: v}\<close>, and a sequence of Dimension Values of length 1
  to the bare \<^verbatim>\<open>{key: v0}\<close>, of length 2 to \<^verbatim>\<open>{keyVertical: v0, keyHorizontal: v1}\<close>, of
  length 3 to \<^verbatim>\<open>{keyTop: v0, keyHorizontal: v1, keyBottom: v2}\<close>, of length 4 to
  \<^verbatim>\<open>{keyTop: v0, keyRight: v1, keyBottom: v2, keyLeft: v3}\<close>. This holds for every key,
  "margin" and "padding" among them.
\<close>

theorem handleShorthandSpacing_expands:
  assumes "isDimensionValue v"
    and "isDimensionValue a" and "isDimensionValue b"
    and "isDimensionValue c" and "isDimensionValue d"
  shows "handleShorthandSpacing key v =
           Inr [(key @ ''Vertical'', v), (key @ ''Horizontal'', v)] \<and>
         handleShorthandSpacing key (JArr [a]) = Inr [(key, a)] \<and>
         handleShorthandSpacing key (JArr [a, b]) =
           Inr [(key @ ''Vertical'', a), (key @ ''Horizontal'', b)] \<and>
         handleShorthandSpacing key (JArr [a, b, c]) =
           Inr [(key @ ''Top'', a), (key @ ''Horizontal'', b), (key @ ''Bottom'', c)] \<and>
         handleShorthandSpacing key (JArr [a, b, c, d]) =
           Inr [(key @ ''Top'', a), (key @ ''Right'', b), (key @ ''Bottom'', c),
                (key @ ''Left'', d)]"
  using assms by (simp add: handleShorthandSpacing_def element_def isDimensionValue_JArr)

theorem handleShorthandSpacing_expands_witness:
  "isDimensionValue (JNum (5::int)) \<and> isDimensionValue (JNum (10::int)) \<and>
   isDimensionValue (JStr ''auto'' :: int jsval) \<and> isDimensionValue (JNull :: int jsval) \<and>
   isDimensionValue (JStr ''2.5%'' :: int jsval) \<and>
   handleShorthandSpacing ''margin'' (JNum (5::int)) =
     Inr [(''marginVertical'', JNum 5), (''marginHorizontal'', JNum 5)] \<and>
   handleShorthandSpacing ''padding'' (JArr [JNum (10::int)]) = Inr [(''padding'', JNum 10)] \<and>
   handleShorthandSpacing ''padding'' (JArr [JNum (10::int), JStr ''auto'']) =
     Inr [(''paddingVertical'', JNum 10), (''paddingHorizontal'', JStr ''auto'')] \<and>
   handleShorthandSpacing ''margin'' (JArr [JNum (10::int), JStr ''auto'', JNull]) =
     Inr [(''marginTop'', JNum 10), (''marginHorizontal'', JStr ''auto''),
          (''marginBottom'', JNull)] \<and>
   handleShorthandSpacing ''margin'' (JArr [JNum (10::int), JStr ''auto'', JNull, JStr ''2.5%'']) =
     Inr [(''marginTop'', JNum 10), (''marginRight'', JStr ''auto''),
          (''marginBottom'', JNull), (''marginLeft'', JStr ''2.5%'')]"
proof -
  have h: "isDimensionValue (JNum (5::int))" "isDimensionValue (JNum (10::int))"
    "isDimensionValue (JStr ''auto'' :: int jsval)" "isDimensionValue (JNull :: int jsval)"
    "isDimensionValue (JStr ''2.5%'' :: int jsval)"
    by (simp_all add: eval_dimension)
  from h handleShorthandSpacing_expands [OF h, of "''margin''"]
    handleShorthandSpacing_expands [OF h, of "''padding''"]
  show ?thesis by simp
qed

text \<open>
  C7. A sequence of Dimension Values whose length is not 1, 2, 3 or 4 makes
  \<^verbatim>\<open>handleShorthandSpacing\<close> fail with the length error of line 176, which names the
  key, the expected lengths 1, 2, 3, 4 and the actual length; the result is the error
  alone, with no property map.
\<close>

theorem handleShorthandSpacing_bad_length:
  assumes "list_all isDimensionValue xs" and "length xs \<notin> {1, 2, 3, 4}"
  shows "handleShorthandSpacing key (JArr xs) =
           Inl (InvalidShorthandLength key [1, 2, 3, 4] (length xs))"
  using assms by (auto simp add: handleShorthandSpacing_def Let_def isDimensionValue_JArr)

theorem handleShorthandSpacing_bad_length_witness:
  "list_all isDimensionValue ([] :: int jsval list) \<and>
   length ([] :: int jsval list) \<notin> {1, 2, 3, 4} \<and>
   handleShorthandSpacing ''margin'' (JArr ([] :: int jsval list)) =
     Inl (InvalidShorthandLength ''margin'' [1, 2, 3, 4] 0) \<and>
   handleShorthandSpacing ''padding'' (JArr [JNum 1, JNum 2, JNum 3, JNum 4, JNum (5::int)]) =
     Inl (InvalidShorthandLength ''padding'' [1, 2, 3, 4] 5)"
proof -
  have h0: "list_all isDimensionValue ([] :: int jsval list)" by simp
  have l0: "length ([] :: int jsval list) \<notin> {1, 2, 3, 4}" by simp
  have h5: "list_all isDimensionValue [JNum 1, JNum 2, JNum 3, JNum 4, JNum (5::int)]"
    by (simp add: isDimensionValue_def)
  have l5: "length [JNum 1, JNum 2, JNum 3, JNum 4, JNum (5::int)] \<notin> {1, 2, 3, 4}" by simp
  from h0 l0 handleShorthandSpacing_bad_length [OF h0 l0, of "''margin''"]
    handleShorthandSpacing_bad_length [OF h5 l5, of "''padding''"]
  show ?thesis by simp
qed

text \<open>
  C3. \<^verbatim>\<open>handleShorthandGap\<close> maps a number \<open>n\<close> to \<^verbatim>\<open>{gap: n}\<close>, a sequence of one number
  to \<^verbatim>\<open>{gap: v0}\<close> and of two numbers to \<^verbatim>\<open>{rowGap: v0, columnGap: v1}\<close>; a sequence of
  numbers of any other length fails with the length error of line 203 (expected 1 or 2);
  and an input that is neither a number nor a sequence fails with the value error of
  line 207, as does a sequence with an element that is not a number.
\<close>

theorem handleShorthandGap_cases:
  "handleShorthandGap key (JNum n) = Inr [(''gap'', JNum n)] \<and>
   handleShorthandGap key (JArr [JNum r]) = Inr [(''gap'', JNum r)] \<and>
   handleShorthandGap key (JArr [JNum r, JNum c]) =
     Inr [(''rowGap'', JNum r), (''columnGap'', JNum c)] \<and>
   (list_all (\<lambda>i. typeof i = ''number'') xs \<and> length xs \<notin> {1, 2} \<longrightarrow>
      handleShorthandGap key (JArr xs) = Inl (InvalidShorthandLength ''gap'' [1, 2] (length xs))) \<and>
   (typeof v \<noteq> ''number'' \<and> \<not> isArray v \<longrightarrow>
      handleShorthandGap key v = Inl (InvalidShorthandValue key (TypeOf (typeof v)))) \<and>
   (\<not> list_all (\<lambda>i. typeof i = ''number'') xs \<longrightarrow>
      handleShorthandGap key (JArr xs) = Inl (InvalidShorthandValue key (TypeOf ''object'')))"
  by (auto simp add: handleShorthandGap_def element_def Let_def)

theorem handleShorthandGap_cases_witness:
  "handleShorthandGap ''gap'' (JNum (8::int)) = Inr [(''gap'', JNum 8)] \<and>
   handleShorthandGap ''gap'' (JArr [JNum (4::int), JNum 6]) =
     Inr [(''rowGap'', JNum 4), (''columnGap'', JNum 6)] \<and>
   handleShorthandGap ''gap'' (JArr [JNum (1::int), JNum 2, JNum 3]) =
     Inl (InvalidShorthandLength ''gap'' [1, 2] 3) \<and>
   handleShorthandGap ''gap'' (JStr ''10%'' :: int jsval) =
     Inl (InvalidShorthandValue ''gap'' (TypeOf ''string'')) \<and>
   handleShorthandGap ''gap'' (JArr [JNum (1::int), JStr ''auto'']) =
     Inl (InvalidShorthandValue ''gap'' (TypeOf ''object''))"
  using
    handleShorthandGap_cases [where key = "''gap''" and n = "8::int" and r = "4::int"
      and c = "6::int" and xs = "[JNum (1::int), JNum 2, JNum 3]" and v = "JStr ''10%'' :: int jsval"]
    handleShorthandGap_cases [where key = "''gap''" and n = "8::int" and r = "4::int"
      and c = "6::int" and xs = "[JNum (1::int), JStr ''auto'']" and v = "JNull :: int jsval"]
  by simp

section \<open>Objects and buckets\<close>

lemma map_of_set_prop [simp]: "map_of (set_prop k v ps) = (map_of ps)(k \<mapsto> v)"
  by (induction ps) auto

lemma set_prop_same: "map_of ps k = Some v \<Longrightarrow> set_prop k v ps = ps"
  by (induction ps) (auto split: if_splits)

lemma set_prop_fresh: "k \<notin> fst ` set ps \<Longrightarrow> set_prop k v ps = ps @ [(k, v)]"
  by (induction ps) auto

lemma assign_plain: "p \<noteq> ''__proto__'' \<Longrightarrow> assign p v b = Some (set_prop p v b)"
  by (simp add: assign_def)

lemma assign_own: "map_of b p = Some w \<Longrightarrow> assign p v b = Some (set_prop p v b)"
  by (simp add: assign_def)

lemma map_add_twice: "m ++ e ++ e = m ++ e"
  by (rule ext) (simp add: map_add_def split: option.splits)

lemma map_of_rev_distinct: "distinct (map fst ps) \<Longrightarrow> map_of (rev ps) = map_of ps"
  by (subst map_of_inject_set) (simp_all add: rev_map [symmetric])

lemma object_assign_plain:
  "plain_obj src \<Longrightarrow>
   snd (object_assign t src) = Completed \<and>
   map_of (fst (object_assign t src)) = map_of t ++ map_of (rev src)"
proof (induction src arbitrary: t)
  case Nil
  then show ?case by simp
next
  case (Cons p ps)
  obtain k v where p: "p = (k, v)" by (cases p)
  from Cons.prems p have k: "k \<noteq> ''__proto__''" and ps: "plain_obj ps"
    by (auto simp add: plain_obj_def)
  have step: "object_assign t (p # ps) = object_assign (set_prop k v t) ps"
    by (simp add: p assign_plain [OF k])
  have "map_of (fst (object_assign (set_prop k v t) ps)) =
      map_of (set_prop k v t) ++ map_of (rev ps)"
    using Cons.IH [OF ps] by blast
  also have "map_of (set_prop k v t) = map_of t ++ map_of [(k, v)]"
    by simp
  also have "map_of t ++ map_of [(k, v)] ++ map_of (rev ps) = map_of t ++ map_of (rev (p # ps))"
    by (simp add: p)
  finally show ?case using Cons.IH [OF ps, of "set_prop k v t"] by (simp add: step)
qed

lemma object_assign_lookup:
  assumes "plain_obj src" and "wf_obj src"
  shows "snd (object_assign t src) = Completed"
    and "map_of (fst (object_assign t src)) = map_of t ++ map_of src"
  using object_assign_plain [OF assms(1), of t] assms(2)
  by (simp_all add: wf_obj_def map_of_rev_distinct)

lemma object_assign_same:
  "list_all (\<lambda>(k, v). map_of t k = Some v) src \<Longrightarrow> object_assign t src = (t, Completed)"
proof (induction src)
  case Nil
  then show ?case by simp
next
  case (Cons p ps)
  obtain k v where p: "p = (k, v)" by (cases p)
  with Cons.prems have own: "map_of t k = Some v" by simp
  then have "assign k v t = Some t" by (simp add: assign_own set_prop_same)
  with Cons p show ?case by simp
qed

lemma ensure_bucket_own: "map_of m k = Some b \<Longrightarrow> ensure_bucket m k = Some b"
  by (simp add: ensure_bucket_def lookup_def)

lemma ensure_bucket_plain: "plain_name k \<Longrightarrow> ensure_bucket m k = Some (own_bucket m k)"
  by (simp add: ensure_bucket_def lookup_def plain_name_def own_bucket_def split: option.splits)

lemma ensure_bucket_Some:
  "ensure_bucket m k = Some b \<Longrightarrow> b = own_bucket m k"
  by (auto simp add: ensure_bucket_def lookup_def own_bucket_def split: option.splits if_splits)

lemma own_bucket_set_prop [simp]:
  "own_bucket (set_prop k b m) k' = (if k' = k then b else own_bucket m k')"
  by (simp add: own_bucket_def)

lemma wf_styles_bucket:
  "wf_styles m \<Longrightarrow> map_of m k = Some b \<Longrightarrow> wf_obj b"
  by (auto simp add: wf_styles_def list_all_iff dest!: map_of_SomeD)

lemma plain_styles_bucket:
  "plain_styles m \<Longrightarrow> map_of m k = Some b \<Longrightarrow> plain_name k \<and> plain_obj b"
  by (auto simp add: plain_styles_def list_all_iff dest!: map_of_SomeD)

section \<open>Merging shared styles\<close>



lemma forIn_selectors_lookup:
  "distinct (map fst shared) \<Longrightarrow> plain_styles shared \<Longrightarrow>
   snd (forIn_selectors ns shared) = Completed \<and>
   map_of (fst (forIn_selectors ns shared)) selector =
     (case map_of shared selector of
        None \<Rightarrow> map_of ns selector
      | Some props \<Rightarrow> Some (fst (object_assign (own_bucket ns selector) props)))"
proof (induction shared arbitrary: ns)
  case Nil
  then show ?case by simp
next
  case (Cons p rest)
  obtain s0 p0 where p: "p = (s0, p0)" by (cases p)
  from Cons.prems p have d: "distinct (map fst rest)" and n: "s0 \<notin> fst ` set rest"
    and pl: "plain_styles rest" and s0: "plain_name s0" and p0: "plain_obj p0"
    by (auto simp add: plain_styles_def)
  obtain b where a: "object_assign (own_bucket ns s0) p0 = (b, Completed)"
    using object_assign_plain [OF p0, of "own_bucket ns s0"]
    by (cases "object_assign (own_bucket ns s0) p0") simp
  let ?ns1 = "set_prop s0 b ns"
  have run: "forIn_selectors ns (p # rest) = forIn_selectors ?ns1 rest"
    by (simp add: p ensure_bucket_plain [OF s0] a)
  note IH = Cons.IH [OF d pl, of ?ns1]
  show ?case
  proof (cases "selector = s0")
    case True
    with n have "map_of rest selector = None" by (simp add: map_of_eq_None_iff)
    with IH True show ?thesis unfolding run by (simp add: p a)
  next
    case False
    with IH show ?thesis unfolding run by (simp add: p split: option.splits)
  qed
qed

lemma applySharedStyles_completes:
  "wf_styles shared \<Longrightarrow> plain_styles shared \<Longrightarrow> applySharedStyles_ended ns shared = Completed"
  using forIn_selectors_lookup [of shared ns]
  by (simp add: applySharedStyles_ended_def wf_styles_def wf_obj_def)

lemma view_applySharedStyles:
  assumes "wf_styles shared" and "plain_styles shared"
  shows "view (applySharedStyles ns shared) = spec_merge (view ns) (view shared)"
proof
  fix selector
  from assms have d: "distinct (map fst shared)" by (simp add: wf_styles_def wf_obj_def)
  note look = forIn_selectors_lookup [OF d assms(2), of ns selector, THEN conjunct2]
  show "view (applySharedStyles ns shared) selector = spec_merge (view ns) (view shared) selector"
  proof (cases "map_of shared selector")
    case None
    then show ?thesis
      by (simp add: view_def spec_merge_def applySharedStyles_def look)
  next
    case (Some props)
    with assms have "wf_obj props" "plain_obj props"
      by (auto dest: wf_styles_bucket plain_styles_bucket)
    then have "map_of (fst (object_assign (own_bucket ns selector) props)) =
        map_of (own_bucket ns selector) ++ map_of props"
      by (simp add: object_assign_lookup(2))
    with Some show ?thesis
      by (simp add: view_def spec_merge_def applySharedStyles_def look own_bucket_def
          split: option.splits)
  qed
qed

lemma forIn_selectors_fixed:
  "list_all (\<lambda>(selector, props). \<exists>b. map_of m selector = Some b \<and>
      list_all (\<lambda>(k, v). map_of b k = Some v) props) shared \<Longrightarrow>
   forIn_selectors m shared = (m, Completed)"
proof (induction shared)
  case Nil
  then show ?case by simp
next
  case (Cons p rest)
  obtain s0 p0 where p: "p = (s0, p0)" by (cases p)
  from Cons.prems p obtain b where b: "map_of m s0 = Some b"
    and all: "list_all (\<lambda>(k, v). map_of b k = Some v) p0" by auto
  have "ensure_bucket m s0 = Some b" "object_assign b p0 = (b, Completed)" "set_prop s0 b m = m"
    using b all by (simp_all add: ensure_bucket_own object_assign_same set_prop_same)
  with Cons p show ?case by simp
qed

lemma applySharedStyles_idem:
  assumes "wf_styles shared" and "plain_styles shared"
  shows "applySharedStyles (applySharedStyles ns shared) shared = applySharedStyles ns shared"
proof -
  have "forIn_selectors (applySharedStyles ns shared) shared =
      (applySharedStyles ns shared, Completed)"
  proof (rule forIn_selectors_fixed, unfold list_all_iff, clarify)
    fix selector props
    assume mem: "(selector, props) \<in> set shared"
    from assms have d: "distinct (map fst shared)" by (simp add: wf_styles_def wf_obj_def)
    with mem have look: "map_of shared selector = Some props" by simp
    with assms have wf: "wf_obj props" "plain_obj props"
      by (auto dest: wf_styles_bucket plain_styles_bucket)
    let ?b = "fst (object_assign (own_bucket ns selector) props)"
    have 1: "map_of (applySharedStyles ns shared) selector = Some ?b"
      using forIn_selectors_lookup [OF d assms(2), of ns selector]
      by (simp add: applySharedStyles_def look)
    have "map_of ?b = map_of (own_bucket ns selector) ++ map_of props"
      using wf by (simp add: object_assign_lookup(2))
    then have 2: "\<forall>x\<in>set props. case x of (k, v) \<Rightarrow> map_of ?b k = Some v"
      using wf(1) by (auto simp add: wf_obj_def map_add_Some_iff)
    from 1 2 show "\<exists>b. map_of (applySharedStyles ns shared) selector = Some b \<and>
        (\<forall>x\<in>set props. case x of (k, v) \<Rightarrow> map_of b k = Some v)" by blast
  qed
  then show ?thesis by (simp add: applySharedStyles_def)
qed

lemma spec_merge_assoc:
  "spec_merge (spec_merge n s1) s2 = spec_merge n (spec_merge s1 s2)"
  by (rule ext) (simp add: spec_merge_def split: option.splits)

lemma disjoint_props_view:
  assumes "disjoint_props s1 s2" "view s1 selector = Some a" "view s2 selector = Some b"
  shows "dom a \<inter> dom b = {}"
proof -
  from assms(2) obtain b1 where b1: "map_of s1 selector = Some b1" "a = map_of b1"
    by (auto simp add: view_def)
  from assms(3) obtain b2 where b2: "map_of s2 selector = Some b2" "b = map_of b2"
    by (auto simp add: view_def)
  from b1 b2 have "(selector, b1) \<in> set s1" "(selector, b2) \<in> set s2"
    by (auto dest: map_of_SomeD)
  with assms(1) have "fst ` set b1 \<inter> fst ` set b2 = {}"
    unfolding disjoint_props_def by blast
  then show ?thesis by (simp add: b1 b2 dom_map_of_conv_image_fst)
qed

lemma spec_merge_commute:
  assumes "disjoint_props s1 s2"
  shows "spec_merge (view s1) (view s2) = spec_merge (view s2) (view s1)"
proof
  fix selector
  show "spec_merge (view s1) (view s2) selector = spec_merge (view s2) (view s1) selector"
  proof (cases "view s1 selector"; cases "view s2 selector")
    fix a b assume ab: "view s1 selector = Some a" "view s2 selector = Some b"
    with assms have "dom a \<inter> dom b = {}" by (rule disjoint_props_view)
    then have "a ++ b = b ++ a" by (rule map_add_comm)
    with ab show ?thesis by (simp add: spec_merge_def)
  qed (simp_all add: spec_merge_def)
qed

text \<open>
  Where the claim C8 holds: on shared maps that are well formed and whose selectors are
  not names of \<^verbatim>\<open>Object.prototype\<close> (and whose buckets have no property
  \<^verbatim>\<open>__proto__\<close>), the call completes and merges each selector's properties into the
  flat map, creating absent buckets and overwriting on conflict; applying the same map
  twice is applying it once; two maps in sequence are last-write-wins, and with
  non-overlapping property sets the result is the merge with their union, in either
  order.
\<close>

lemma applySharedStyles_merge:
  assumes "wf_styles s" and "plain_styles s"
    and "wf_styles s1" and "plain_styles s1" and "wf_styles s2" and "plain_styles s2"
  shows "applySharedStyles_ended ns s = Completed \<and>
         view (applySharedStyles ns s) = spec_merge (view ns) (view s) \<and>
         applySharedStyles (applySharedStyles ns s) s = applySharedStyles ns s \<and>
         view (applySharedStyles (applySharedStyles ns s1) s2) =
           spec_merge (spec_merge (view ns) (view s1)) (view s2) \<and>
         (disjoint_props s1 s2 \<longrightarrow>
            spec_merge (view s1) (view s2) = spec_merge (view s2) (view s1) \<and>
            view (applySharedStyles (applySharedStyles ns s1) s2) =
              spec_merge (view ns) (spec_merge (view s1) (view s2)) \<and>
            view (applySharedStyles (applySharedStyles ns s1) s2) =
              view (applySharedStyles (applySharedStyles ns s2) s1))"
proof -
  have ended: "applySharedStyles_ended ns s = Completed"
    using assms(1,2) by (rule applySharedStyles_completes)
  have once: "view (applySharedStyles ns s) = spec_merge (view ns) (view s)"
    using assms(1,2) by (rule view_applySharedStyles)
  have same: "applySharedStyles (applySharedStyles ns s) s = applySharedStyles ns s"
    using assms(1,2) by (rule applySharedStyles_idem)
  have twice: "view (applySharedStyles (applySharedStyles ns s1) s2) =
      spec_merge (spec_merge (view ns) (view s1)) (view s2)"
    by (simp add: view_applySharedStyles assms)
  have other: "view (applySharedStyles (applySharedStyles ns s2) s1) =
      spec_merge (spec_merge (view ns) (view s2)) (view s1)"
    by (simp add: view_applySharedStyles assms)
  have "spec_merge (view s1) (view s2) = spec_merge (view s2) (view s1) \<and>
      view (applySharedStyles (applySharedStyles ns s1) s2) =
        spec_merge (view ns) (spec_merge (view s1) (view s2)) \<and>
      view (applySharedStyles (applySharedStyles ns s1) s2) =
        view (applySharedStyles (applySharedStyles ns s2) s1)"
    if d: "disjoint_props s1 s2"
  proof -
    have c: "spec_merge (view s1) (view s2) = spec_merge (view s2) (view s1)"
      using d by (rule spec_merge_commute)
    have "spec_merge (spec_merge (view ns) (view s1)) (view s2) =
        spec_merge (spec_merge (view ns) (view s2)) (view s1)"
      unfolding spec_merge_assoc c ..
    with c twice other show ?thesis by (simp add: spec_merge_assoc)
  qed
  with ended once same twice show ?thesis by blast
qed

lemmas eval_objects =
  ensure_bucket_def lookup_def object_prototype_names_def assign_def
  applySharedStyles_def applySharedStyles_ended_def

text \<open>
  C8 on the code. A shared map can own a selector that \<^verbatim>\<open>Object.prototype\<close> defines,
  such as \<^verbatim>\<open>constructor\<close>. The test \<^verbatim>\<open>!nativeStyles[selector]\<close> of line 94 then reads
  the inherited function, which is truthy: no bucket is created, and line 95 assigns the
  properties onto that function. The flat map is left without the selector, where the
  merge of the claim gives it a bucket holding the properties.
\<close>

theorem applySharedStyles_inherited_selector:
  "applySharedStyles [(''box'', [(''flex'', JNum (1::int))])]
       [(''constructor'', [(''color'', JStr ''red'')])] =
     [(''box'', [(''flex'', JNum 1)])] \<and>
   applySharedStyles_ended [(''box'', [(''flex'', JNum (1::int))])]
       [(''constructor'', [(''color'', JStr ''red'')])] =
     Outside ''constructor'' \<and>
   view (applySharedStyles [(''box'', [(''flex'', JNum (1::int))])]
       [(''constructor'', [(''color'', JStr ''red'')])]) ''constructor'' = None \<and>
   spec_merge (view [(''box'', [(''flex'', JNum (1::int))])])
       (view [(''constructor'', [(''color'', JStr ''red'')])]) ''constructor'' \<noteq> None"
  by (simp add: eval_objects view_def spec_merge_def)

section \<open>Plain and ignored-key assignment\<close>



section \<open>Shared selectors\<close>

lemma handler_plain:
  assumes "map_of shorthandHandlers nm = Some handler" and "handler nm pv = Inr expanded"
  shows "plain_obj expanded"
proof -
  from assms(1) consider
    "nm = ''inset''" "handler = handleShorthandInset"
    | "nm = ''margin''" "handler = handleShorthandSpacing"
    | "nm = ''padding''" "handler = handleShorthandSpacing"
    | "nm = ''gap''" "handler = handleShorthandGap"
    by (auto simp add: shorthandHandlers_def split: if_splits)
  then show ?thesis
  proof cases
    case 1
    with assms(2) show ?thesis
      by (auto simp add: handleShorthandInset_def plain_obj_def Let_def split: if_splits)
  next
    case 2
    with assms(2) show ?thesis
      by (auto simp add: handleShorthandSpacing_def plain_obj_def Let_def split: if_splits)
  next
    case 3
    with assms(2) show ?thesis
      by (auto simp add: handleShorthandSpacing_def plain_obj_def Let_def split: if_splits)
  next
    case 4
    with assms(2) show ?thesis
      by (auto simp add: handleShorthandGap_def plain_obj_def Let_def split: if_splits)
  qed
qed

text \<open>One turn of the loop of lines 42-49 that neither throws nor leaves the bucket:
  the bucket it goes on with, for a bucket \<open>b\<close> and for an empty one.\<close>

lemma write_props_step:
  fixes pv :: "'n jsval"
  assumes "nm \<noteq> ''__proto__''"
  shows "(\<exists>e. snd (write_props ((nm, pv) # rest) b) = Threw e \<and>
            snd (write_props ((nm, pv) # rest) c) = Threw e) \<or>
         (\<exists>b1 c1. write_props ((nm, pv) # rest) b = write_props rest b1 \<and>
            write_props ((nm, pv) # rest) c = write_props rest c1 \<and>
            (\<exists>w. map_of b1 = map_of b ++ w \<and> map_of c1 = map_of c ++ w))"
proof (cases "nm \<in> set specialShorthandKeys")
  case False
  have "write_props ((nm, pv) # rest) b = write_props rest (set_prop nm pv b)"
    "write_props ((nm, pv) # rest) c = write_props rest (set_prop nm pv c)"
    "map_of (set_prop nm pv b) = map_of b ++ map_of [(nm, pv)]"
    "map_of (set_prop nm pv c) = map_of c ++ map_of [(nm, pv)]"
    using False by (simp_all add: assign_plain [OF assms])
  then show ?thesis by blast
next
  case True
  show ?thesis
  proof (cases "map_of (shorthandHandlers ::
      (string \<times> (string \<Rightarrow> 'n jsval \<Rightarrow> 'n error + 'n obj)) list) nm")
    case None
    with True show ?thesis by simp
  next
    case (Some handler)
    show ?thesis
    proof (cases "handler nm pv")
      case (Inl e)
      with True Some show ?thesis by simp
    next
      case (Inr expanded)
      with Some have pl: "plain_obj expanded" by (rule handler_plain)
      obtain b1 where b1: "object_assign b expanded = (b1, Completed)"
        using object_assign_plain [OF pl, of b] by (cases "object_assign b expanded") simp
      obtain c1 where c1: "object_assign c expanded = (c1, Completed)"
        using object_assign_plain [OF pl, of c] by (cases "object_assign c expanded") simp
      have "map_of b1 = map_of b ++ map_of (rev expanded)"
        "map_of c1 = map_of c ++ map_of (rev expanded)"
        using object_assign_plain [OF pl, of b] object_assign_plain [OF pl, of c] b1 c1
        by simp_all
      moreover have "write_props ((nm, pv) # rest) b = write_props rest b1"
        "write_props ((nm, pv) # rest) c = write_props rest c1"
        using True Some Inr b1 c1 by simp_all
      ultimately show ?thesis by blast
    qed
  qed
qed

lemma write_props_related:
  "plain_obj props \<Longrightarrow> map_of b = map_of c ++ w0 \<Longrightarrow>
   snd (write_props props b) = snd (write_props props c) \<and>
   (snd (write_props props b) = Completed \<longrightarrow>
      (\<exists>w. map_of (fst (write_props props b)) = map_of b ++ w \<and>
           map_of (fst (write_props props c)) = map_of c ++ w))"
proof (induction props arbitrary: b c w0)
  case Nil
  have "map_of b = map_of b ++ Map.empty \<and> map_of c = map_of c ++ Map.empty" by simp
  then show ?case by (simp del: map_add_empty) blast
next
  case (Cons p rest)
  obtain nm pv where p: "p = (nm, pv)" by (cases p)
  from Cons.prems p have nm: "nm \<noteq> ''__proto__''" and pl: "plain_obj rest"
    by (auto simp add: plain_obj_def)
  from write_props_step [OF nm, of pv rest b c] show ?case
  proof
    assume "\<exists>e. snd (write_props ((nm, pv) # rest) b) = Threw e \<and>
        snd (write_props ((nm, pv) # rest) c) = Threw e"
    then show ?thesis by (auto simp add: p)
  next
    assume "\<exists>b1 c1. write_props ((nm, pv) # rest) b = write_props rest b1 \<and>
        write_props ((nm, pv) # rest) c = write_props rest c1 \<and>
        (\<exists>w. map_of b1 = map_of b ++ w \<and> map_of c1 = map_of c ++ w)"
    then obtain b1 c1 w1 where s: "write_props (p # rest) b = write_props rest b1"
      "write_props (p # rest) c = write_props rest c1"
      and w1: "map_of b1 = map_of b ++ w1" "map_of c1 = map_of c ++ w1"
      unfolding p by blast
    have rel: "map_of b1 = map_of c1 ++ (w0 ++ w1)"
    proof -
      have "map_of b1 = (map_of c ++ w0) ++ w1" using w1(1) Cons.prems(2) by simp
      also have "\<dots> = (map_of c ++ w1) ++ (w0 ++ w1)"
        by (rule ext) (simp add: map_add_def split: option.splits)
      finally show ?thesis using w1(2) by simp
    qed
    note IH = Cons.IH [OF pl rel]
    have "\<exists>w. map_of (fst (write_props rest b1)) = map_of b ++ w \<and>
        map_of (fst (write_props rest c1)) = map_of c ++ w"
      if "snd (write_props rest b1) = Completed"
    proof -
      from IH that obtain w where w: "map_of (fst (write_props rest b1)) = map_of b1 ++ w"
        "map_of (fst (write_props rest c1)) = map_of c1 ++ w" by blast
      have "map_of (fst (write_props rest b1)) = map_of b ++ (w1 ++ w)"
        "map_of (fst (write_props rest c1)) = map_of c ++ (w1 ++ w)"
        using w w1 by simp_all
      then show ?thesis by blast
    qed
    with IH show ?thesis unfolding s by blast
  qed
qed

lemma write_props_error:
  "plain_obj props \<Longrightarrow> snd (write_props props b) = snd (write_props props c)"
  using write_props_related [of props b "[]" "map_of b"]
    write_props_related [of props c "[]" "map_of c"]
  by simp

lemma write_props_lookup:
  assumes "plain_obj props" and "snd (write_props props b) = Completed"
  shows "map_of (fst (write_props props b)) = map_of b ++ map_of (fst (write_props props []))"
proof -
  from write_props_related [OF assms(1), of b "[]" "map_of b"] assms(2)
  obtain w where "map_of (fst (write_props props b)) = map_of b ++ w"
    "map_of (fst (write_props props [])) = map_of [] ++ w" by auto
  then show ?thesis by simp
qed

lemma write_props_plain:
  "set (map fst props) \<inter> set specialShorthandKeys = {} \<Longrightarrow> plain_obj props \<Longrightarrow>
   distinct (map fst (b @ props)) \<Longrightarrow> write_props props b = (b @ props, Completed)"
proof (induction props arbitrary: b)
  case Nil
  then show ?case by simp
next
  case (Cons p rest)
  obtain nm pv where p: "p = (nm, pv)" by (cases p)
  from Cons.prems p have fresh: "nm \<notin> fst ` set b" and plain: "nm \<notin> set specialShorthandKeys"
    and nm: "nm \<noteq> ''__proto__''" and pl: "plain_obj rest"
    by (auto simp add: plain_obj_def)
  have "write_props (p # rest) b = write_props rest (b @ [(nm, pv)])"
    using p plain by (simp add: assign_plain [OF nm] set_prop_fresh [OF fresh])
  also have "\<dots> = ((b @ [(nm, pv)]) @ rest, Completed)"
    using Cons.prems p pl by (intro Cons.IH) auto
  finally show ?case by (simp add: p)
qed

lemma forEach_selector_frame:
  "k \<notin> scopedKey parentKey ` set sels \<Longrightarrow>
   map_of (fst (forEach_selector parentKey props sels m)) k = map_of m k"
proof (induction sels arbitrary: m)
  case Nil
  then show ?case by simp
next
  case (Cons sel rest)
  let ?sk = "scopedKey parentKey sel"
  from Cons.prems have ne: "k \<noteq> ?sk" and r: "k \<notin> scopedKey parentKey ` set rest" by auto
  show ?case
  proof (cases "ensure_bucket m ?sk")
    case None
    show ?thesis
    proof (cases "write_inherited ?sk props = Completed")
      case True
      with None have "forEach_selector parentKey props (sel # rest) m =
          forEach_selector parentKey props rest m" by simp
      then show ?thesis using Cons.IH [OF r, of m] by simp
    next
      case False
      with None have "forEach_selector parentKey props (sel # rest) m =
          (m, write_inherited ?sk props)"
        by (cases "write_inherited ?sk props") simp_all
      then show ?thesis by simp
    qed
  next
    case (Some b0)
    obtain b ended where w: "write_props props b0 = (b, ended)"
      by (cases "write_props props b0")
    show ?thesis
    proof (cases "ended = Completed")
      case True
      with Some w have "forEach_selector parentKey props (sel # rest) m =
          forEach_selector parentKey props rest (set_prop ?sk b m)" by simp
      then show ?thesis using Cons.IH [OF r, of "set_prop ?sk b m"] ne by simp
    next
      case False
      with Some w have "forEach_selector parentKey props (sel # rest) m =
          (set_prop ?sk b m, ended)"
        by (cases ended) simp_all
      then show ?thesis using ne by simp
    qed
  qed
qed

lemma forEach_selector_buckets:
  assumes E: "write_props props [] = (E, Completed)" and pl: "plain_obj props"
  shows "list_all (\<lambda>sel. plain_name (scopedKey parentKey sel)) sels \<Longrightarrow>
     snd (forEach_selector parentKey props sels m) = Completed \<and>
     (\<forall>sel \<in> set sels. \<exists>b.
        map_of (fst (forEach_selector parentKey props sels m)) (scopedKey parentKey sel) = Some b \<and>
        map_of b = map_of (own_bucket m (scopedKey parentKey sel)) ++ map_of E)"
proof (induction sels arbitrary: m)
  case Nil
  then show ?case by simp
next
  case (Cons sel rest)
  let ?sk = "scopedKey parentKey sel"
  from Cons.prems have sk: "plain_name ?sk"
    and names: "list_all (\<lambda>sel. plain_name (scopedKey parentKey sel)) rest" by simp_all
  have e: "ensure_bucket m ?sk = Some (own_bucket m ?sk)" using sk by (rule ensure_bucket_plain)
  obtain b ended where w: "write_props props (own_bucket m ?sk) = (b, ended)"
    by (cases "write_props props (own_bucket m ?sk)")
  have "ended = Completed"
    using write_props_error [OF pl, of "own_bucket m ?sk" "[]"] w E by simp
  with w have w': "write_props props (own_bucket m ?sk) = (b, Completed)" by simp
  have b: "map_of b = map_of (own_bucket m ?sk) ++ map_of E"
    using write_props_lookup [OF pl, of "own_bucket m ?sk"] w' E by simp
  let ?m1 = "set_prop ?sk b m"
  have run: "forEach_selector parentKey props (sel # rest) m =
      forEach_selector parentKey props rest ?m1"
    using e w' by simp
  note IH = Cons.IH [OF names, of ?m1]
  have "\<exists>b'. map_of (fst (forEach_selector parentKey props rest ?m1)) (scopedKey parentKey s) =
          Some b' \<and>
        map_of b' = map_of (own_bucket m (scopedKey parentKey s)) ++ map_of E"
    if s: "s \<in> set (sel # rest)" for s
  proof (cases "s \<in> set rest")
    case True
    with IH obtain b' where b':
      "map_of (fst (forEach_selector parentKey props rest ?m1)) (scopedKey parentKey s) = Some b'"
      "map_of b' = map_of (own_bucket ?m1 (scopedKey parentKey s)) ++ map_of E" by blast
    have "map_of (own_bucket ?m1 (scopedKey parentKey s)) ++ map_of E =
        map_of (own_bucket m (scopedKey parentKey s)) ++ map_of E"
      by (simp add: b map_add_twice)
    with b' show ?thesis by simp
  next
    case False
    with s have eq: "s = sel" by simp
    show ?thesis
    proof (cases "?sk \<in> scopedKey parentKey ` set rest")
      case True
      then obtain s' where s': "s' \<in> set rest" "scopedKey parentKey s' = ?sk" by auto
      with IH obtain b' where b':
        "map_of (fst (forEach_selector parentKey props rest ?m1)) (scopedKey parentKey s') = Some b'"
        "map_of b' = map_of (own_bucket ?m1 (scopedKey parentKey s')) ++ map_of E" by blast
      have "map_of (own_bucket ?m1 ?sk) ++ map_of E = map_of (own_bucket m ?sk) ++ map_of E"
        by (simp add: b map_add_twice)
      with b' s' eq show ?thesis by simp
    next
      case False
      have "map_of (fst (forEach_selector parentKey props rest ?m1)) ?sk = Some b"
        using forEach_selector_frame [OF False, of props ?m1] by simp
      with b eq show ?thesis by simp
    qed
  qed
  with IH run show ?case by simp
qed

lemma split_comma_nonempty: "split_comma s \<noteq> []"
  by (induction s) simp_all

lemma join_comma_Cons: "xs \<noteq> [] \<Longrightarrow> join_comma (x # xs) = x @ CHR '','' # join_comma xs"
  by (cases xs) simp_all

lemma join_comma_push: "join_comma ((c # x) # xs) = c # join_comma (x # xs)"
  by (cases xs) simp_all

lemma join_split_comma: "join_comma (split_comma s) = s"
proof (induction s)
  case Nil
  then show ?case by simp
next
  case (Cons c cs)
  have ne: "split_comma cs \<noteq> []" by (rule split_comma_nonempty)
  show ?case
  proof (cases "c = CHR '',''")
    case True
    then show ?thesis using Cons.IH by (simp add: join_comma_Cons [OF ne])
  next
    case False
    have "join_comma (split_comma (c # cs)) = c # join_comma (hd (split_comma cs) # tl (split_comma cs))"
      using False by (simp add: join_comma_push)
    then show ?thesis using Cons.IH ne by simp
  qed
qed

lemma split_comma_segments: "seg \<in> set (split_comma s) \<Longrightarrow> CHR '','' \<notin> set seg"
proof (induction s arbitrary: seg)
  case Nil
  then show ?case by simp
next
  case (Cons c cs)
  have ne: "split_comma cs \<noteq> []" by (rule split_comma_nonempty)
  then have mem: "hd (split_comma cs) \<in> set (split_comma cs)"
    "set (tl (split_comma cs)) \<subseteq> set (split_comma cs)"
    by (simp_all add: list.set_sel(2) subsetI)
  show ?case
  proof (cases "c = CHR '',''")
    case True
    with Cons.prems have "seg = [] \<or> seg \<in> set (split_comma cs)" by simp
    then show ?thesis using Cons.IH by auto
  next
    case False
    with Cons.prems have "seg = c # hd (split_comma cs) \<or> seg \<in> set (tl (split_comma cs))" by simp
    then show ?thesis using Cons.IH mem False by auto
  qed
qed

lemma trim_decompose:
  "\<exists>l r. s = l @ trim s @ r \<and> list_all is_space l \<and> list_all is_space r \<and>
     (trim s = [] \<or> (\<not> is_space (hd (trim s)) \<and> \<not> is_space (last (trim s))))"
proof -
  let ?l = "takeWhile is_space s"
  let ?d = "dropWhile is_space s"
  let ?r = "rev (takeWhile is_space (rev ?d))"
  have t: "trim s = rev (dropWhile is_space (rev ?d))" by (simp add: trim_def)
  have "rev (takeWhile is_space (rev ?d) @ dropWhile is_space (rev ?d)) = ?d" by simp
  then have d: "?d = trim s @ ?r" unfolding t rev_append by (rule sym)
  have s: "s = ?l @ trim s @ ?r" using d takeWhile_dropWhile_id [of is_space s] by simp
  have l: "list_all is_space ?l" by (auto simp add: list_all_iff dest: set_takeWhileD)
  have r: "list_all is_space ?r" by (auto simp add: list_all_iff dest: set_takeWhileD)
  have e: "\<not> is_space (hd (trim s)) \<and> \<not> is_space (last (trim s))" if ne: "trim s \<noteq> []"
  proof
    from ne d have "?d \<noteq> []" by (metis append_is_Nil_conv)
    then have "\<not> is_space (hd ?d)" by (rule hd_dropWhile)
    moreover have "hd ?d = hd (trim s)" using d ne by (metis hd_append2)
    ultimately show "\<not> is_space (hd (trim s))" by simp
    from ne t have n2: "dropWhile is_space (rev ?d) \<noteq> []" by (metis rev.simps(1))
    then have "\<not> is_space (hd (dropWhile is_space (rev ?d)))" by (rule hd_dropWhile)
    moreover have "last (trim s) = hd (dropWhile is_space (rev ?d))"
      unfolding t using n2 by (simp add: last_rev)
    ultimately show "\<not> is_space (last (trim s))" by simp
  qed
  from s l r e show ?thesis by blast
qed

lemmas eval_shared =
  handleSharedStyles_def selectors_def scopedKey_def capitalize_def toUpperCase_def trim_def
  is_space_def specialShorthandKeys_def shorthandHandlers_def

text \<open>
  Where the claim C5 holds. The key is split on commas and each segment trimmed; the
  scoped key is the parentKey followed by the segment with its first character, and only
  that one, in upper case when the parentKey is not empty, and the bare segment
  otherwise. When the declared properties expand without error to \<open>E\<close> (for plain
  properties, \<open>E\<close> is the declaration itself), none of them is named \<^verbatim>\<open>__proto__\<close> and
  no scoped key is a name of \<^verbatim>\<open>Object.prototype\<close>, the call completes and the bucket
  of every segment holds the properties it held before, overwritten by those of \<open>E\<close>.
\<close>

lemma handleSharedStyles_scoped:
  assumes "write_props props [] = (E, Completed)" and "plain_obj props"
    and "list_all (\<lambda>seg. plain_name (scopedKey parentKey seg)) (selectors key)"
  shows "(\<exists>segs. selectors key = map trim segs \<and> join_comma segs = key \<and>
            list_all (\<lambda>seg. CHR '','' \<notin> set seg) segs) \<and>
         (\<forall>seg. \<exists>l r. seg = l @ trim seg @ r \<and> list_all is_space l \<and> list_all is_space r \<and>
            (trim seg = [] \<or> (\<not> is_space (hd (trim seg)) \<and> \<not> is_space (last (trim seg))))) \<and>
         scopedKey parentKey [] = parentKey \<and>
         scopedKey parentKey (c # cs) =
           (if parentKey = [] then c # cs else parentKey @ toUpperCase c # cs) \<and>
         map (scopedKey ''card'') (selectors ''title, subtitle'') = [''cardTitle'', ''cardSubtitle''] \<and>
         snd (handleSharedStyles key parentKey props m) = Completed \<and>
         list_all (\<lambda>seg. \<exists>b.
             map_of (fst (handleSharedStyles key parentKey props m)) (scopedKey parentKey seg) = Some b \<and>
             map_of b = map_of (own_bucket m (scopedKey parentKey seg)) ++ map_of E)
           (selectors key) \<and>
         (set (map fst props) \<inter> set specialShorthandKeys = {} \<and> distinct (map fst props) \<longrightarrow>
            E = props)"
proof -
  have split: "\<exists>segs. selectors key = map trim segs \<and> join_comma segs = key \<and>
      list_all (\<lambda>seg. CHR '','' \<notin> set seg) segs"
  proof -
    have "selectors key = map trim (split_comma key) \<and> join_comma (split_comma key) = key \<and>
        list_all (\<lambda>seg. CHR '','' \<notin> set seg) (split_comma key)"
      by (simp add: selectors_def join_split_comma list_all_iff split_comma_segments)
    then show ?thesis by blast
  qed
  have trims: "\<forall>seg. \<exists>l r. seg = l @ trim seg @ r \<and> list_all is_space l \<and> list_all is_space r \<and>
      (trim seg = [] \<or> (\<not> is_space (hd (trim seg)) \<and> \<not> is_space (last (trim seg))))"
    using trim_decompose by blast
  have scoped: "scopedKey parentKey [] = parentKey"
    "scopedKey parentKey (c # cs) =
       (if parentKey = [] then c # cs else parentKey @ toUpperCase c # cs)"
    by (simp_all add: scopedKey_def capitalize_def)
  have card: "map (scopedKey ''card'') (selectors ''title, subtitle'') =
      [''cardTitle'', ''cardSubtitle'']"
    by (simp add: eval_shared)
  have run: "snd (handleSharedStyles key parentKey props m) = Completed"
    "list_all (\<lambda>seg. \<exists>b.
         map_of (fst (handleSharedStyles key parentKey props m)) (scopedKey parentKey seg) = Some b \<and>
         map_of b = map_of (own_bucket m (scopedKey parentKey seg)) ++ map_of E)
       (selectors key)"
    using forEach_selector_buckets [OF assms(1,2,3), of m]
    by (simp_all add: handleSharedStyles_def list_all_iff)
  have plain: "E = props"
    if "set (map fst props) \<inter> set specialShorthandKeys = {} \<and> distinct (map fst props)"
    using write_props_plain [of props "[]"] assms(1,2) that by simp
  from split trims scoped card run plain show ?thesis by blast
qed

text \<open>
  C5 on the code. The scoped key can be a name that \<^verbatim>\<open>Object.prototype\<close> defines:
  the selector \<^verbatim>\<open>constructor\<close>, or \<^verbatim>\<open>string\<close> under the parentKey \<^verbatim>\<open>to\<close>, which
  gives \<^verbatim>\<open>toString\<close>. The test \<^verbatim>\<open>!map[scopedKey]\<close> of line 40 then reads the inherited
  function, which is truthy: no bucket is created, and line 47 writes the declared
  property onto that function. The map has no bucket under the scoped key after the
  call, where the claim has the bucket receive the properties, as it does for
  \<^verbatim>\<open>box\<close>.
\<close>

theorem handleSharedStyles_inherited_scoped_key:
  "handleSharedStyles ''constructor'' [] [(''color'', JStr ''red'' :: int jsval)] [] =
     ([], Outside ''constructor'') \<and>
   map_of (fst (handleSharedStyles ''constructor'' [] [(''color'', JStr ''red'' :: int jsval)] []))
     ''constructor'' = None \<and>
   scopedKey ''to'' ''string'' = ''toString'' \<and>
   handleSharedStyles ''string'' ''to'' [(''color'', JStr ''red'' :: int jsval)] [] =
     ([], Outside ''toString'') \<and>
   handleSharedStyles ''box'' [] [(''color'', JStr ''red'' :: int jsval)] [] =
     ([(''box'', [(''color'', JStr ''red'')])], Completed)"
  by (simp add: eval_shared eval_objects)



end
